theory Spec2Isabelle
  imports Main "HOL-Library.Word"
begin

section \<open>Python strings\<close>

text \<open>
  A Python \<open>str\<close> is a sequence of Unicode code points, and every operation of the
  scripts (\<open>split\<close>, \<open>strip\<close>, \<open>enumerate\<close> over a word, indexing) counts code points.
  A character is therefore its code point, a natural number, and a string is a list of them.
\<close>

type_synonym uchar = nat
type_synonym ustr = "nat list"

text \<open>ASCII literals, for concrete inputs.\<close>

definition ascii :: "string \<Rightarrow> ustr" where
  "ascii s = map of_char s"

definition TAB :: uchar where "TAB = 9"
definition NL :: uchar where "NL = 10"
definition CR :: uchar where "CR = 13"
definition SP :: uchar where "SP = 32"
definition HASH :: uchar where "HASH = 35"
definition SEMI :: uchar where "SEMI = 59"
definition LBRACK :: uchar where "LBRACK = 91"

text \<open>
  \<open>str.isspace\<close> on one character, which is also what \<open>str.split()\<close> and \<open>str.strip()\<close>
  without arguments treat as whitespace: the code points CPython lists as whitespace
  (U+0009..U+000D, U+001C..U+0020, U+0085, U+00A0, U+1680, U+2000..U+200A, U+2028, U+2029,
  U+202F, U+205F, U+3000).
\<close>

definition isspace :: "uchar \<Rightarrow> bool" where
  "isspace c = ((9 \<le> c \<and> c \<le> 13) \<or> (28 \<le> c \<and> c \<le> 32) \<or> c = 133 \<or> c = 160
     \<or> c = 5760 \<or> (8192 \<le> c \<and> c \<le> 8202) \<or> c = 8232 \<or> c = 8233 \<or> c = 8239
     \<or> c = 8287 \<or> c = 12288)"

text \<open>
  \<open>s.split(sep)\<close> for a one-character separator, and \<open>re.split\<close> on a character class
  without groups: the pieces between the separator characters, empty pieces included. The
  result is never empty.
\<close>

fun split_where :: "('a \<Rightarrow> bool) \<Rightarrow> 'a list \<Rightarrow> 'a list list" where
  "split_where p [] = [[]]"
| "split_where p (x # xs) =
     (if p x then [] # split_where p xs
      else (case split_where p xs of h # t \<Rightarrow> (x # h) # t))"

definition split_on :: "'a \<Rightarrow> 'a list \<Rightarrow> 'a list list" where
  "split_on sep s = split_where (\<lambda>c. c = sep) s"

text \<open>\<open>s.split()\<close>: the maximal runs of non-whitespace characters.\<close>

function split_ws :: "ustr \<Rightarrow> ustr list" where
  "split_ws s =
     (let t = dropWhile isspace s in
      if t = [] then []
      else takeWhile (\<lambda>c. \<not> isspace c) t # split_ws (dropWhile (\<lambda>c. \<not> isspace c) t))"
  by pat_completeness auto
termination
proof (relation "measure length")
  show "wf (measure length)" by simp
next
  fix s t :: ustr
  assume t: "t = dropWhile isspace s" and ne: "t \<noteq> []"
  have "\<not> isspace (hd t)" using t ne hd_dropWhile by metis
  then have "dropWhile (\<lambda>c. \<not> isspace c) t = dropWhile (\<lambda>c. \<not> isspace c) (tl t)"
    using ne by (cases t) auto
  moreover have "length (dropWhile (\<lambda>c. \<not> isspace c) (tl t)) \<le> length (tl t)"
    by (rule length_dropWhile_le)
  moreover have "length (tl t) < length t" using ne by (cases t) auto
  moreover have "length t \<le> length s" using t by (simp add: length_dropWhile_le)
  ultimately show "(dropWhile (\<lambda>c. \<not> isspace c) t, s) \<in> measure length" by simp
qed

declare split_ws.simps [simp del]

text \<open>\<open>sep.join(xs)\<close>.\<close>

fun py_join :: "'a list \<Rightarrow> 'a list list \<Rightarrow> 'a list" where
  "py_join sep [] = []"
| "py_join sep [x] = x"
| "py_join sep (x # y # ys) = x @ sep @ py_join sep (y # ys)"

text \<open>\<open>s.strip()\<close>, \<open>s.startswith(p)\<close>, \<open>s.endswith(p)\<close> and \<open>sub in s\<close>.\<close>

definition py_strip :: "ustr \<Rightarrow> ustr" where
  "py_strip s = rev (dropWhile isspace (rev (dropWhile isspace s)))"

definition startswith :: "'a list \<Rightarrow> 'a list \<Rightarrow> bool" where
  "startswith s p = (take (length p) s = p)"

definition endswith :: "'a list \<Rightarrow> 'a list \<Rightarrow> bool" where
  "endswith s p = startswith (rev s) (rev p)"

fun contains :: "'a list \<Rightarrow> 'a list \<Rightarrow> bool" where
  "contains [] sub = (sub = [])"
| "contains (x # xs) sub = (startswith (x # xs) sub \<or> contains xs sub)"

section \<open>Strip mode\<close>

text \<open>
  The loop of \<open>remove_auxiliary_code_from_line\<close> over the whitespace-separated parts of the
  transcription column: each part is split at semicolons and, the split being non-empty,
  its first piece is appended.
\<close>

fun processed_pinyins :: "ustr list \<Rightarrow> ustr list" where
  "processed_pinyins [] = []"
| "processed_pinyins (pinyin_part # rest) =
     (let pinyin_parts = split_on SEMI pinyin_part in
      (if pinyin_parts \<noteq> [] then [hd pinyin_parts] else []) @ processed_pinyins rest)"

text \<open>
  \<open>remove_auxiliary_code_from_line(line, userdb)\<close> of \<open>MainRime.py\<close>. The column index is
  0 for a user dictionary and 1 for a plain one; a line with too few columns is returned as
  it is.
\<close>

definition pinyin_index :: "ustr list \<Rightarrow> bool \<Rightarrow> nat option" where
  "pinyin_index cols userdb =
     (if userdb \<and> 1 \<le> length cols then Some 0
      else if \<not> userdb \<and> 2 \<le> length cols then Some 1
      else None)"

definition remove_auxiliary_code_from_line :: "ustr \<Rightarrow> bool \<Rightarrow> ustr" where
  "remove_auxiliary_code_from_line line userdb =
     (let cols = split_on TAB line in
      case pinyin_index cols userdb of
        None \<Rightarrow> line
      | Some i \<Rightarrow>
          py_join [TAB] (cols[i := py_join [SP] (processed_pinyins (split_ws (cols ! i)))]))"

text \<open>
  The per-line transformation of the stand-alone script \<open>remove_auxiliary_code.py\<close>
  (its lines 64 to 85), with its own copy of the loop.
\<close>

fun adhoc_processed_pinyins :: "ustr list \<Rightarrow> ustr list" where
  "adhoc_processed_pinyins [] = []"
| "adhoc_processed_pinyins (pinyin # rest) =
     (let pinyin_parts = split_on SEMI pinyin in
      (if pinyin_parts \<noteq> [] then [hd pinyin_parts] else []) @ adhoc_processed_pinyins rest)"

definition adhoc_process_line :: "ustr \<Rightarrow> ustr" where
  "adhoc_process_line line =
     (let parts = split_on TAB line in
      if 2 \<le> length parts
      then py_join [TAB] (parts[1 := py_join [SP] (adhoc_processed_pinyins (split_ws (parts ! 1)))])
      else line)"

text \<open>
  The segments of the transcription column of a data line, for stating properties of the
  strip operation: the whitespace-separated parts of the column that the mode selects, and
  none when the line has no such column.
\<close>

definition transcription_segments :: "ustr \<Rightarrow> bool \<Rightarrow> ustr list" where
  "transcription_segments line userdb =
     (case pinyin_index (split_on TAB line) userdb of
        None \<Rightarrow> []
      | Some i \<Rightarrow> split_ws (split_on TAB line ! i))"

section \<open>Refresh mode\<close>

text \<open>
  What the scripts take from outside: the switches of the configuration block, whether
  \<open>pypinyin\<close> could be imported, the two calls of the transcription service
  (\<open>pinyin(text, style=Style.TONE, heteronym=False)\<close> and the same call with
  \<open>errors='ignore'\<close>; each returns one list of candidates per unit, or raises), and the
  Unicode table behind \<open>str.isdigit\<close>. The service is opaque, so nothing is assumed about
  what it returns.
\<close>

datatype py_error = IndexError | ServiceError

record env =
  REFRESH_PINYIN :: bool
  REFRESH_AUX_CODE :: bool
  HAS_PYPINYIN :: bool
  pinyin :: "ustr \<Rightarrow> py_error + ustr list list"
  pinyin_ignore :: "ustr \<Rightarrow> py_error + ustr list list"
  digit :: "uchar \<Rightarrow> bool"

text \<open>\<open>s.isdigit()\<close>: at least one character, and all of them digits.\<close>

definition isdigit :: "env \<Rightarrow> ustr \<Rightarrow> bool" where
  "isdigit e s = (s \<noteq> [] \<and> list_all (digit e) s)"

text \<open>
  \<open>AUX_SEP_REGEX = r'[;\[]'\<close>, and the two expressions every loop uses:
  \<open>root = re.split(AUX_SEP_REGEX, seg)[0]\<close> and \<open>suffix = seg[len(root):]\<close>. The
  split is never empty, so its element 0 is its head.
\<close>

definition AUX_SEP :: "uchar \<Rightarrow> bool" where
  "AUX_SEP c = (c = SEMI \<or> c = LBRACK)"

definition seg_root :: "ustr \<Rightarrow> ustr" where
  "seg_root seg = hd (split_where AUX_SEP seg)"

definition seg_suffix :: "ustr \<Rightarrow> ustr" where
  "seg_suffix seg = drop (length (seg_root seg)) seg"

text \<open>\<open>xs[i]\<close> for a non-negative index, \<open>xs[i] = v\<close> and \<open>xs.insert(i, v)\<close>.\<close>

definition get_item :: "'a list \<Rightarrow> nat \<Rightarrow> py_error + 'a" where
  "get_item xs i = (if i < length xs then Inr (xs ! i) else Inl IndexError)"

definition set_item :: "'a list \<Rightarrow> nat \<Rightarrow> 'a \<Rightarrow> py_error + 'a list" where
  "set_item xs i v = (if i < length xs then Inr (xs[i := v]) else Inl IndexError)"

definition list_insert :: "'a list \<Rightarrow> nat \<Rightarrow> 'a \<Rightarrow> 'a list" where
  "list_insert xs i v = take i xs @ [v] @ drop i xs"

text \<open>\<open>[p[0] for p in ps]\<close>: raises on an empty candidate list.\<close>

fun firsts :: "ustr list list \<Rightarrow> py_error + ustr list" where
  "firsts [] = Inr []"
| "firsts (p # ps) =
     (case p of
        [] \<Rightarrow> Inl IndexError
      | c # _ \<Rightarrow> (case firsts ps of Inl err \<Rightarrow> Inl err | Inr cs \<Rightarrow> Inr (c # cs)))"

definition char_py_of :: "env \<Rightarrow> ustr \<Rightarrow> py_error + ustr list" where
  "char_py_of e word = (case pinyin e word of Inl err \<Rightarrow> Inl err | Inr ps \<Rightarrow> firsts ps)"

text \<open>
  \<open>tone_mark(seg)\<close>: the root is sent to the service, and the first candidate of the first
  unit (the root itself when the service returns nothing) is returned with the segment's
  suffix attached.
\<close>

definition tone_mark :: "env \<Rightarrow> ustr \<Rightarrow> py_error + ustr" where
  "tone_mark e seg =
     (if \<not> HAS_PYPINYIN e then Inr seg
      else
        let root = seg_root seg; suffix = seg_suffix seg in
        case pinyin_ignore e root of
          Inl err \<Rightarrow> Inl err
        | Inr py \<Rightarrow>
            (case py of
               [] \<Rightarrow> Inr (root @ suffix)
             | p # _ \<Rightarrow> (case p of [] \<Rightarrow> Inl IndexError | c # _ \<Rightarrow> Inr (c @ suffix))))"

text \<open>
  The loop of the user-dictionary branch, \<open>for i, seg in enumerate(segs)\<close>, started at
  \<open>i\<close>: the new root is \<open>char_py[i]\<close> or, past the end of \<open>char_py\<close>, \<open>tone_mark(seg)\<close>;
  the segment's suffix is appended to it.
\<close>

fun userdb_new_segs :: "env \<Rightarrow> ustr list \<Rightarrow> nat \<Rightarrow> ustr list \<Rightarrow> py_error + ustr list" where
  "userdb_new_segs e char_py i [] = Inr []"
| "userdb_new_segs e char_py i (seg # segs) =
     (case (if i < length char_py then Inr (char_py ! i) else tone_mark e seg) of
        Inl err \<Rightarrow> Inl err
      | Inr base_py \<Rightarrow>
          (case userdb_new_segs e char_py (Suc i) segs of
             Inl err \<Rightarrow> Inl err
           | Inr new_segs \<Rightarrow> Inr ((base_py @ seg_suffix seg) # new_segs)))"

text \<open>
  The loop of the plain branch, \<open>for i, py in enumerate(char_py)\<close>, started at \<open>i\<close>: the
  suffix of segment \<open>i\<close>, or nothing past the end of \<open>segs\<close>, is appended to \<open>py\<close>.
\<close>

fun plain_new_segs :: "ustr list \<Rightarrow> nat \<Rightarrow> ustr list \<Rightarrow> ustr list" where
  "plain_new_segs segs i [] = []"
| "plain_new_segs segs i (py # pys) =
     (py @ (if i < length segs then seg_suffix (segs ! i) else [])) # plain_new_segs segs (Suc i) pys"

text \<open>
  The block under \<open>if REFRESH_PINYIN and HAS_PYPINYIN\<close>. It ends in one of three ways:
  the line is appended as it was and the loop continues (\<open>Skip_line\<close>), an exception is
  caught and the columns stay as they were (\<open>Pinyin_failed\<close>: every call that can raise
  comes before the first assignment to \<open>cols\<close>), or the columns are rewritten.
\<close>

datatype pinyin_step = Skip_line | Pinyin_failed py_error | Pinyin_done "ustr list"

definition refresh_pinyin :: "env \<Rightarrow> bool \<Rightarrow> ustr \<Rightarrow> ustr list \<Rightarrow> pinyin_step" where
  "refresh_pinyin e userdb word cols =
     (if userdb \<and> 3 \<le> length cols then
        let segs = (if cols \<noteq> [] then split_ws (cols ! 0) else []) in
        if py_strip word = [] then Skip_line
        else
          case char_py_of e word of
            Inl err \<Rightarrow> Pinyin_failed err
          | Inr char_py \<Rightarrow>
              (case userdb_new_segs e char_py 0 segs of
                 Inl err \<Rightarrow> Pinyin_failed err
               | Inr new_segs \<Rightarrow> Pinyin_done (cols[0 := py_join [SP] new_segs]))
      else
        if py_strip word = [] then Skip_line
        else
          case char_py_of e word of
            Inl err \<Rightarrow> Pinyin_failed err
          | Inr char_py \<Rightarrow>
              if length cols = 1 then Pinyin_done (cols @ [py_join [SP] char_py])
              else if 2 \<le> length cols \<and> isdigit e (cols ! 1)
                then Pinyin_done ([word, py_join [SP] char_py] @ drop 1 cols)
              else if 2 \<le> length cols
                then Pinyin_done (cols[1 := py_join [SP] (plain_new_segs (split_ws (cols ! 1)) 0 char_py)])
              else Pinyin_done cols)"

text \<open>
  The auxiliary-code table is a dictionary from strings to strings, read here as an
  association list; \<open>aux_map.get(ch, '')\<close> looks up the one-character string \<open>ch\<close>.
\<close>

type_synonym aux_map = "(ustr \<times> ustr) list"

definition aux_get :: "aux_map \<Rightarrow> uchar \<Rightarrow> ustr" where
  "aux_get aux_map ch = (case map_of aux_map [ch] of None \<Rightarrow> [] | Some code \<Rightarrow> code)"

definition build_seg_by_aux :: "ustr \<Rightarrow> aux_map \<Rightarrow> ustr list" where
  "build_seg_by_aux word aux_map = map (aux_get aux_map) word"

text \<open>The loop \<open>for i, py in enumerate(raw_segs)\<close>, started at \<open>i\<close>.\<close>

fun merged_segs :: "ustr list \<Rightarrow> nat \<Rightarrow> ustr list \<Rightarrow> ustr list" where
  "merged_segs aux_segs i [] = []"
| "merged_segs aux_segs i (py # raw_segs) =
     (let aux = (if i < length aux_segs then aux_segs ! i else []);
          root = seg_root py
      in (root @ [SEMI] @ aux) # merged_segs aux_segs (Suc i) raw_segs)"

text \<open>
  The block under \<open>if REFRESH_AUX_CODE and aux_map\<close>. An exception leaves the columns as
  the insertions before it made them.
\<close>

datatype aux_step = Aux_failed py_error "ustr list" | Aux_done "ustr list"

definition refresh_aux :: "ustr \<Rightarrow> aux_map \<Rightarrow> bool \<Rightarrow> ustr list \<Rightarrow> aux_step" where
  "refresh_aux word aux_map userdb cols =
     (let seg_idx = (if userdb then 0 else 1);
          cols1 = (if \<not> userdb \<and> length cols = 1 then list_insert cols 1 []
                   else if userdb \<and> length cols < 2 then cols @ [[]]
                   else cols);
          raw_segs = (if seg_idx < length cols1 then split_ws (py_strip (cols1 ! seg_idx)) else []);
          cols2 = (if seg_idx < length cols1 then cols1
                   else if userdb then list_insert cols1 0 [] else list_insert cols1 1 []);
          aux_segs = build_seg_by_aux word aux_map;
          merged = merged_segs aux_segs 0 raw_segs
      in if userdb then
           (case set_item cols2 0 (py_join [SP] merged) of
              Inl err \<Rightarrow> Aux_failed err cols2
            | Inr cols3 \<Rightarrow> Aux_done cols3)
         else if merged \<noteq> [] then
           (case set_item cols2 seg_idx (py_join [SP] merged) of
              Inl err \<Rightarrow> Aux_failed err cols2
            | Inr cols3 \<Rightarrow> Aux_done cols3)
         else Aux_done cols2)"

text \<open>The user-dictionary convention: a first column that does not end in a space gets one.\<close>

definition userdb_space :: "bool \<Rightarrow> ustr list \<Rightarrow> ustr list" where
  "userdb_space userdb cols =
     (if userdb \<and> cols \<noteq> [] \<and> 0 < length cols
      then (if \<not> endswith (cols ! 0) [SP] then cols[0 := cols ! 0 @ [SP]] else cols)
      else cols)"

text \<open>
  A data line whose word was found and is not blank: the two blocks in order, then the
  convention. The result is the column list that is joined with tabs, or \<open>None\<close> when a
  block appended the line as it was and went on to the next line.
\<close>

definition transform_cols :: "env \<Rightarrow> aux_map \<Rightarrow> bool \<Rightarrow> ustr \<Rightarrow> ustr list \<Rightarrow> ustr list option" where
  "transform_cols e aux_map userdb word cols =
     (case (if REFRESH_PINYIN e \<and> HAS_PYPINYIN e then refresh_pinyin e userdb word cols
            else Pinyin_done cols) of
        Skip_line \<Rightarrow> None
      | step \<Rightarrow>
          let cols1 = (case step of Pinyin_done cs \<Rightarrow> cs | _ \<Rightarrow> cols);
              cols2 = (if REFRESH_AUX_CODE e \<and> aux_map \<noteq> []
                       then (case refresh_aux word aux_map userdb cols1 of
                               Aux_failed err cs \<Rightarrow> cs
                             | Aux_done cs \<Rightarrow> cs)
                       else cols1)
          in Some (userdb_space userdb cols2))"

text \<open>Header and comment lines, and the two markers of a user dictionary.\<close>

definition yaml_heads :: "ustr list" where
  "yaml_heads = [ascii ''---'', ascii ''name:'', ascii ''version:'', ascii ''sort:'', ascii ''...'']"

definition is_head_or_comment :: "ustr \<Rightarrow> bool" where
  "is_head_or_comment line = (list_ex (startswith line) yaml_heads \<or> startswith line [HASH])"

definition is_userdb_head :: "ustr \<Rightarrow> bool" where
  "is_userdb_head line =
     (contains line (ascii ''#@/db_type'' @ [TAB] @ ascii ''userdb'')
      \<or> contains line (ascii ''# Rime user dictionary''))"

text \<open>
  One turn of the loop over the lines of \<open>process_file_in_place\<close>: the line appended to
  \<open>processed_lines\<close>, whether the turn set \<open>modified\<close>, and \<open>userdb\<close> afterwards.
\<close>

definition process_line :: "env \<Rightarrow> aux_map \<Rightarrow> bool \<Rightarrow> ustr \<Rightarrow> ustr \<times> bool \<times> bool" where
  "process_line e aux_map userdb line =
     (if is_head_or_comment line then (line, False, userdb \<or> is_userdb_head line)
      else if py_strip line = [] then ([], False, userdb)
      else
        let cols = split_on TAB line;
            original_line = py_join [TAB] cols
        in case get_item cols (if userdb then 1 else 0) of
             Inl err \<Rightarrow> (line, False, userdb)
           | Inr word \<Rightarrow>
               if py_strip word = [] then (line, False, userdb)
               else
                 (case transform_cols e aux_map userdb word cols of
                    None \<Rightarrow> (line, False, userdb)
                  | Some cols' \<Rightarrow>
                      let processed_line = py_join [TAB] cols'
                      in (processed_line, processed_line \<noteq> original_line, userdb)))"

fun process_lines :: "env \<Rightarrow> aux_map \<Rightarrow> bool \<Rightarrow> ustr list \<Rightarrow> ustr list \<times> bool" where
  "process_lines e aux_map userdb [] = ([], False)"
| "process_lines e aux_map userdb (line # lines) =
     (case process_line e aux_map userdb line of
        (out, changed, userdb') \<Rightarrow>
          (case process_lines e aux_map userdb' lines of
             (outs, modified) \<Rightarrow> (out # outs, changed \<or> modified)))"

section \<open>Files\<close>

text \<open>
  A file is its bytes, and the file system a map from paths to files. What the operating
  system and the codecs decide is taken from outside: the strict UTF-8 and GBK decoders
  (\<open>None\<close> for \<open>UnicodeDecodeError\<close>), the encoder of the text written back, the base
  name of a path, which files are read-only, the name \<open>NamedTemporaryFile\<close> picks, and
  which step of the write, if any, fails.
\<close>

type_synonym byte = "8 word"
type_synonym path = string
type_synonym filesystem = "path \<rightharpoonup> byte list"

datatype fault = No_fault | Create_fails | Write_fails | Unlink_fails | Move_fails

record io =
  decode_utf8 :: "byte list \<Rightarrow> ustr option"
  decode_gbk :: "byte list \<Rightarrow> ustr option"
  encode_utf8 :: "ustr \<Rightarrow> byte list option"
  basename :: "path \<Rightarrow> string"
  read_only :: "path \<Rightarrow> bool"
  temp_path :: path
  fault :: fault

text \<open>Latin-1 gives every byte the code point of the same number, so it decodes anything.\<close>

definition decode_latin1 :: "byte list \<Rightarrow> ustr option" where
  "decode_latin1 bs = Some (map unat bs)"

text \<open>
  A file opened for reading in text mode translates \<open>\r\n\<close> and \<open>\r\<close> to \<open>\n\<close>, and
  iterating over it yields the lines with their terminators; a last line without a
  terminator is yielded too.
\<close>

fun universal_newlines :: "ustr \<Rightarrow> ustr" where
  "universal_newlines [] = []"
| "universal_newlines [c] = [if c = CR then NL else c]"
| "universal_newlines (c # d # cs) =
     (if c = CR \<and> d = NL then NL # universal_newlines cs
      else if c = CR then NL # universal_newlines (d # cs)
      else c # universal_newlines (d # cs))"

fun lines_from :: "ustr \<Rightarrow> ustr \<Rightarrow> ustr list" where
  "lines_from cur [] = (if cur = [] then [] else [cur])"
| "lines_from cur (c # cs) =
     (if c = NL then (cur @ [NL]) # lines_from [] cs else lines_from (cur @ [c]) cs)"

definition file_lines :: "ustr \<Rightarrow> ustr list" where
  "file_lines text = lines_from [] (universal_newlines text)"

definition rstrip_nl :: "ustr \<Rightarrow> ustr" where
  "rstrip_nl s = rev (dropWhile (\<lambda>c. c = NL) (rev s))"

text \<open>
  \<open>read_file_safely\<close> on the bytes of the file: the encodings are tried in order, and the
  first that decodes gives the lines; \<open>None\<close> is the \<open>return None\<close> after the loop.
\<close>

fun try_encodings :: "(byte list \<Rightarrow> ustr option) list \<Rightarrow> byte list \<Rightarrow> ustr list option" where
  "try_encodings [] bs = None"
| "try_encodings (decode # rest) bs =
     (case decode bs of
        Some text \<Rightarrow> Some (map rstrip_nl (file_lines text))
      | None \<Rightarrow> try_encodings rest bs)"

definition read_file_safely :: "io \<Rightarrow> byte list \<Rightarrow> ustr list option" where
  "read_file_safely io bs = try_encodings [decode_utf8 io, decode_gbk io, decode_latin1] bs"

text \<open>
  How a call on one file ends. The Python functions return \<open>True\<close> for a file left as it
  was because nothing changed and for a file rewritten, and \<open>False\<close> otherwise; each way has
  its own log line.
\<close>

datatype outcome =
  Skipped | No_permission | Undecodable | Unmodified | Rewritten | Replace_failed | Write_failed

definition returns :: "outcome \<Rightarrow> bool" where
  "returns r = (r = Unmodified \<or> r = Rewritten)"

text \<open>
  The second half of both per-file functions: the processed lines are written to a
  temporary file in the directory of the target, the target is removed if it exists, and
  the temporary file is moved onto it. \<open>temp_path\<close> is assigned after the write, so a
  write that raises leaves \<open>temp_path\<close> unset and the handler removes nothing; a failed write
  leaves the created file (modelled as empty). The handlers' own \<open>os.unlink\<close> is taken to
  succeed.
\<close>

definition write_back :: "io \<Rightarrow> path \<Rightarrow> ustr list \<Rightarrow> filesystem \<Rightarrow> filesystem \<times> outcome" where
  "write_back io file_path processed_lines fs =
     (if fault io = Create_fails then (fs, Write_failed)
      else
        let fs1 = fs(temp_path io \<mapsto> []) in
        case (if fault io = Write_fails then None
              else encode_utf8 io (py_join [NL] processed_lines @ [NL])) of
          None \<Rightarrow> (fs1, Write_failed)
        | Some data \<Rightarrow>
            let fs2 = fs1(temp_path io \<mapsto> data) in
            if fs2 file_path \<noteq> None \<and> fault io = Unlink_fails
            then (fs2(temp_path io := None), Replace_failed)
            else
              let fs3 = fs2(file_path := None) in
              if fault io = Move_fails then (fs3(temp_path io := None), Replace_failed)
              else (fs3(temp_path io := None, file_path \<mapsto> data), Rewritten))"

definition skip_set :: "string list" where
  "skip_set = [''compatible.dict.yaml'', ''corrections.dict.yaml'', ''chars.dict.yaml'',
     ''people.dict.yaml'', ''encnnum.dict.yaml'']"

text \<open>
  \<open>process_file_in_place(file_path, aux_map)\<close>. \<open>os.access(file_path, os.W_OK)\<close> fails
  for a file that does not exist and for one that is read-only.
\<close>

definition process_file_in_place ::
  "env \<Rightarrow> io \<Rightarrow> aux_map \<Rightarrow> path \<Rightarrow> filesystem \<Rightarrow> filesystem \<times> outcome" where
  "process_file_in_place e io aux_map file_path fs =
     (if basename io file_path \<in> set skip_set then (fs, Skipped)
      else
        case fs file_path of
          None \<Rightarrow> (fs, No_permission)
        | Some bytes \<Rightarrow>
            if read_only io file_path then (fs, No_permission)
            else
              (case read_file_safely io bytes of
                 None \<Rightarrow> (fs, Undecodable)
               | Some lines \<Rightarrow>
                   (case process_lines e aux_map False lines of
                      (processed_lines, modified) \<Rightarrow>
                        if \<not> modified then (fs, Unmodified)
                        else write_back io file_path processed_lines fs)))"

text \<open>The loop and the body of \<open>remove_auxiliary_code_in_file(file_path)\<close>.\<close>

fun strip_lines :: "bool \<Rightarrow> ustr list \<Rightarrow> ustr list \<times> bool" where
  "strip_lines userdb [] = ([], False)"
| "strip_lines userdb (line # lines) =
     (if is_head_or_comment line then
        (case strip_lines (userdb \<or> is_userdb_head line) lines of
           (outs, modified) \<Rightarrow> (line # outs, modified))
      else if py_strip line = [] then
        (case strip_lines userdb lines of (outs, modified) \<Rightarrow> ([] # outs, modified))
      else
        let new_line = remove_auxiliary_code_from_line line userdb in
        case strip_lines userdb lines of
          (outs, modified) \<Rightarrow> (new_line # outs, modified \<or> new_line \<noteq> line))"

definition remove_auxiliary_code_in_file :: "io \<Rightarrow> path \<Rightarrow> filesystem \<Rightarrow> filesystem \<times> outcome" where
  "remove_auxiliary_code_in_file io file_path fs =
     (if basename io file_path \<in> set skip_set then (fs, Skipped)
      else
        case fs file_path of
          None \<Rightarrow> (fs, No_permission)
        | Some bytes \<Rightarrow>
            if read_only io file_path then (fs, No_permission)
            else
              (case read_file_safely io bytes of
                 None \<Rightarrow> (fs, Undecodable)
               | Some lines \<Rightarrow>
                   (case strip_lines False lines of
                      (processed_lines, modified) \<Rightarrow>
                        if \<not> modified then (fs, Unmodified)
                        else write_back io file_path processed_lines fs)))"

section \<open>Notions used in the statements\<close>

text \<open>The number of spaces a string ends in, for stating the user-dictionary convention.\<close>

definition trailing_spaces :: "ustr \<Rightarrow> nat" where
  "trailing_spaces s = length (takeWhile (\<lambda>c. c = SP) (rev s))"

text \<open>
  For stating when a file is left alone with both refresh switches off. A line needs its
  space when it is a data line of a user dictionary with a non-blank word whose first column
  does not end in a space; \<open>any_needs_space\<close> follows the lines of a file, switching to
  the user-dictionary layout at a marker line as the loop does.
\<close>

definition needs_space :: "bool \<Rightarrow> ustr \<Rightarrow> bool" where
  "needs_space userdb line =
     (userdb \<and> \<not> is_head_or_comment line \<and> py_strip line \<noteq> [] \<and>
      (case get_item (split_on TAB line) 1 of
         Inl err \<Rightarrow> False
       | Inr word \<Rightarrow> py_strip word \<noteq> [] \<and> \<not> endswith (split_on TAB line ! 0) [SP]))"

fun any_needs_space :: "bool \<Rightarrow> ustr list \<Rightarrow> bool" where
  "any_needs_space userdb [] = False"
| "any_needs_space userdb (line # lines) =
     (needs_space userdb line
      \<or> any_needs_space (userdb \<or> (is_head_or_comment line \<and> is_userdb_head line)) lines)"

section \<open>Example inputs\<close>

text \<open>
  The plain line of the specification's first scenario with a frequency column added: the
  word U+4F60 U+597D, the transcription column of the two segments \<open>n\<close> U+01D0 \<open>;x\<close> and
  \<open>h\<close> U+01CE \<open>o;y\<close>, and \<open>100\<close>.
\<close>

definition ni_hao_line :: ustr where
  "ni_hao_line =
     py_join [TAB] [[20320, 22909], [110, 464, SEMI, 120, SP, 104, 462, 111, SEMI, 121], ascii ''100'']"

text \<open>A plain line whose second segment has an empty root: the columns \<open>x\<close> and \<open>a ;b c\<close>.\<close>

definition empty_root_line :: ustr where
  "empty_root_line = py_join [TAB] [ascii ''x'', ascii ''a ;b c'']"

text \<open>
  A stand-in for the transcription service: it knows U+4F60 (\<open>n\<close> U+01D0) and U+597D
  (\<open>h\<close> U+01CE \<open>o\<close>), gives any other character back as its own unit, and with
  \<open>errors='ignore'\<close> leaves out what it does not know. It never raises. Digits are the
  ASCII digits.
\<close>

definition demo_pinyin :: "ustr \<Rightarrow> py_error + ustr list list" where
  "demo_pinyin text =
     Inr (map (\<lambda>ch. [if ch = 20320 then [110, 464] else if ch = 22909 then [104, 462, 111] else [ch]]) text)"

definition demo_pinyin_ignore :: "ustr \<Rightarrow> py_error + ustr list list" where
  "demo_pinyin_ignore text =
     Inr (concat (map (\<lambda>ch. if ch = 20320 then [[[110, 464]]] else if ch = 22909 then [[[104, 462, 111]]] else []) text))"

definition demo_env :: env where
  "demo_env = \<lparr>REFRESH_PINYIN = True, REFRESH_AUX_CODE = True, HAS_PYPINYIN = True,
     pinyin = demo_pinyin, pinyin_ignore = demo_pinyin_ignore, digit = (\<lambda>c. 48 \<le> c \<and> c \<le> 57)\<rparr>"

text \<open>The same environment with both refresh switches off.\<close>

definition off_env :: env where
  "off_env = demo_env\<lparr>REFRESH_PINYIN := False, REFRESH_AUX_CODE := False\<rparr>"

text \<open>
  A stand-in for the codecs and the operating system: the two strict decoders and the
  encoder accept ASCII only, every file is writable, and no step of the write fails.
\<close>

definition strict_io :: io where
  "strict_io = \<lparr>decode_utf8 = (\<lambda>bs. if list_all (\<lambda>b. b < 128) bs then Some (map unat bs) else None),
     decode_gbk = (\<lambda>bs. if list_all (\<lambda>b. b < 128) bs then Some (map unat bs) else None),
     encode_utf8 = (\<lambda>s. if list_all (\<lambda>c. c < 128) s then Some (map of_nat s) else None),
     basename = (\<lambda>p. p), read_only = (\<lambda>p. False), temp_path = ''tmp0001.tmp'', fault = No_fault\<rparr>"

text \<open>
  Three small files, as text and as the file system that holds only them: a user
  dictionary whose data line \<open>ni\<close>, \<open>x\<close>, \<open>c=1\<close> has no space after the first column,
  a plain dictionary with the line \<open>x\<close>, \<open>ni;a\<close>, and a plain dictionary with the line
  \<open>x\<close>, \<open>ni\<close>.
\<close>

definition user_dict_text :: ustr where
  "user_dict_text = ascii ''# Rime user dictionary'' @ [NL] @ py_join [TAB] [ascii ''ni'', ascii ''x'', ascii ''c=1''] @ [NL]"

definition user_dict_fs :: filesystem where
  "user_dict_fs = [''user.dict.yaml'' \<mapsto> map of_nat user_dict_text]"

definition suffixed_dict_text :: ustr where
  "suffixed_dict_text = py_join [TAB] [ascii ''x'', ascii ''ni;a''] @ [NL]"

definition suffixed_dict_fs :: filesystem where
  "suffixed_dict_fs = [''plain.dict.yaml'' \<mapsto> map of_nat suffixed_dict_text]"

definition plain_dict_text :: ustr where
  "plain_dict_text = ascii ''# plain'' @ [NL] @ py_join [TAB] [ascii ''x'', ascii ''ni''] @ [NL]"

definition plain_dict_fs :: filesystem where
  "plain_dict_fs = [''plain.dict.yaml'' \<mapsto> map of_nat plain_dict_text]"

section \<open>Facts about the string operations\<close>

lemma split_where_nonempty [simp]: "split_where p s \<noteq> []"
  by (induction s) (auto split: list.splits)

lemma split_on_nonempty [simp]: "split_on sep s \<noteq> []"
  by (simp add: split_on_def)

lemma length_split_on_pos [simp]: "0 < length (split_on sep s)"
  using split_on_nonempty [of sep s] by (cases "split_on sep s") auto

lemma hd_split_where: "hd (split_where p s) = takeWhile (\<lambda>c. \<not> p c) s"
proof (induction s)
  case Nil
  then show ?case by simp
next
  case (Cons x xs)
  then show ?case by (cases "split_where p xs") auto
qed

lemma split_where_pieces:
  "piece \<in> set (split_where p s) \<Longrightarrow> c \<in> set piece \<Longrightarrow> \<not> p c"
proof (induction s arbitrary: piece)
  case Nil
  then show ?case by simp
next
  case (Cons x xs)
  obtain h t where ht: "split_where p xs = h # t"
    by (cases "split_where p xs") auto
  show ?case
  proof (cases "p x")
    case True
    with Cons show ?thesis by auto
  next
    case False
    with Cons.prems ht have "piece = x # h \<or> piece \<in> set t" by auto
    then show ?thesis
    proof
      assume "piece = x # h"
      with Cons.prems False Cons.IH [of h] ht show ?thesis by auto
    next
      assume "piece \<in> set t"
      with Cons.prems Cons.IH [of piece] ht show ?thesis by auto
    qed
  qed
qed

lemma split_where_id: "\<forall>c\<in>set s. \<not> p c \<Longrightarrow> split_where p s = [s]"
  by (induction s) auto

lemma split_where_Cons_keep:
  "\<not> p x \<Longrightarrow> split_where p (x # xs) = (x # hd (split_where p xs)) # tl (split_where p xs)"
  by (cases "split_where p xs") auto

lemma split_where_append:
  "\<forall>c\<in>set a. \<not> p c \<Longrightarrow> p sep \<Longrightarrow> split_where p (a @ sep # rest) = a # split_where p rest"
  by (induction a) auto

lemma split_where_join:
  "cols \<noteq> [] \<Longrightarrow> \<forall>col\<in>set cols. \<forall>c\<in>set col. \<not> p c \<Longrightarrow> p sep \<Longrightarrow>
   split_where p (py_join [sep] cols) = cols"
proof (induction "[sep]" cols rule: py_join.induct)
  case 1
  then show ?case by simp
next
  case (2 x)
  then show ?case by (simp add: split_where_id)
next
  case (3 x y ys)
  then show ?case by (simp add: split_where_append)
qed

lemma py_join_Cons_Cons: "py_join sep ((x # h) # t) = x # py_join sep (h # t)"
  by (cases t) auto

lemma join_split_where: "py_join [sep] (split_where (\<lambda>c. c = sep) s) = s"
proof (induction s)
  case Nil
  then show ?case by simp
next
  case (Cons x xs)
  obtain h t where ht: "split_where (\<lambda>c. c = sep) xs = h # t"
    by (cases "split_where (\<lambda>c. c = sep) xs") auto
  show ?case
  proof (cases "x = sep")
    case True
    with Cons ht show ?thesis by simp
  next
    case False
    with Cons ht show ?thesis by (simp add: py_join_Cons_Cons)
  qed
qed

lemma join_split_on: "py_join [sep] (split_on sep s) = s"
  by (simp add: split_on_def join_split_where)

lemma split_on_join:
  "cols \<noteq> [] \<Longrightarrow> \<forall>col\<in>set cols. sep \<notin> set col \<Longrightarrow> split_on sep (py_join [sep] cols) = cols"
  unfolding split_on_def by (rule split_where_join) auto

lemma split_on_pieces: "piece \<in> set (split_on sep s) \<Longrightarrow> sep \<notin> set piece"
  unfolding split_on_def using split_where_pieces [of piece "\<lambda>c. c = sep" s sep] by auto

lemma isspace_SP [simp]: "isspace SP" by (simp add: isspace_def SP_def)
lemma isspace_TAB [simp]: "isspace TAB" by (simp add: isspace_def TAB_def)

lemma split_ws_blank: "dropWhile isspace s = [] \<Longrightarrow> split_ws s = []"
  by (subst split_ws.simps) (simp add: Let_def)

lemma split_ws_unfold:
  "dropWhile isspace s \<noteq> [] \<Longrightarrow>
   split_ws s = takeWhile (\<lambda>c. \<not> isspace c) (dropWhile isspace s)
                # split_ws (dropWhile (\<lambda>c. \<not> isspace c) (dropWhile isspace s))"
  by (subst split_ws.simps) (simp only: Let_def if_False)

lemma split_ws_Nil [simp]: "split_ws [] = []"
  by (simp add: split_ws_blank)

lemma split_ws_space_Cons: "isspace c \<Longrightarrow> split_ws (c # s) = split_ws s"
proof (cases "dropWhile isspace s = []")
  case True
  assume "isspace c"
  with True show ?thesis by (simp add: split_ws_blank)
next
  case False
  assume c: "isspace c"
  then have "dropWhile isspace (c # s) = dropWhile isspace s" by simp
  with False show ?thesis
    using split_ws_unfold [of "c # s"] split_ws_unfold [of s] by simp
qed

lemma split_ws_token:
  assumes "t \<noteq> []" and "\<forall>c\<in>set t. \<not> isspace c" and "rest = [] \<or> isspace (hd rest)"
  shows "split_ws (t @ rest) = t # split_ws rest"
proof -
  obtain x xs where t: "t = x # xs" using assms(1) by (cases t) auto
  have d: "dropWhile isspace (t @ rest) = t @ rest" using t assms(2) by simp
  have tw: "takeWhile (\<lambda>c. \<not> isspace c) (t @ rest) = t"
    using assms(2,3) by (cases rest) (auto simp: takeWhile_append)
  have dw: "dropWhile (\<lambda>c. \<not> isspace c) (t @ rest) = rest"
    using assms(2,3) by (cases rest) (auto simp: dropWhile_append)
  have "dropWhile isspace (t @ rest) \<noteq> []" using d t by simp
  from split_ws_unfold [OF this] show ?thesis by (simp only: d tw dw)
qed

lemma split_ws_tokens:
  "t \<in> set (split_ws s) \<Longrightarrow> t \<noteq> [] \<and> (\<forall>c\<in>set t. \<not> isspace c)"
proof (induction s rule: split_ws.induct)
  case (1 s)
  let ?d = "dropWhile isspace s"
  show ?case
  proof (cases "?d = []")
    case True
    with "1.prems" show ?thesis by (simp add: split_ws_blank)
  next
    case False
    then have hd: "\<not> isspace (hd ?d)" using hd_dropWhile by metis
    from "1.prems" have
      "t = takeWhile (\<lambda>c. \<not> isspace c) ?d \<or> t \<in> set (split_ws (dropWhile (\<lambda>c. \<not> isspace c) ?d))"
      unfolding split_ws_unfold [OF False] by simp
    then show ?thesis
    proof
      assume eq: "t = takeWhile (\<lambda>c. \<not> isspace c) ?d"
      have "t \<noteq> []" using eq False hd by (cases ?d) auto
      moreover have "\<forall>c\<in>set t. \<not> isspace c" using eq by (auto dest: set_takeWhileD)
      ultimately show ?thesis by simp
    next
      assume "t \<in> set (split_ws (dropWhile (\<lambda>c. \<not> isspace c) ?d))"
      with "1.IH" [OF refl False] show ?thesis by simp
    qed
  qed
qed

lemma split_ws_join:
  "\<forall>t\<in>set toks. t \<noteq> [] \<and> (\<forall>c\<in>set t. \<not> isspace c) \<Longrightarrow> split_ws (py_join [SP] toks) = toks"
proof (induction "[SP]" toks rule: py_join.induct)
  case 1
  then show ?case by simp
next
  case (2 x)
  then show ?case using split_ws_token [of x "[]"] by simp
next
  case (3 x y ys)
  have "split_ws (x @ (SP # py_join [SP] (y # ys))) = x # split_ws (SP # py_join [SP] (y # ys))"
    using 3 by (intro split_ws_token) auto
  also have "split_ws (SP # py_join [SP] (y # ys)) = split_ws (py_join [SP] (y # ys))"
    by (simp add: split_ws_space_Cons)
  finally show ?case using 3 by simp
qed

text \<open>Facts for evaluating the operations on concrete strings.\<close>

lemmas chars = TAB_def NL_def CR_def SP_def HASH_def SEMI_def LBRACK_def
lemmas str_eval = chars ascii_def split_on_def split_ws_unfold split_ws_blank isspace_def
  startswith_def endswith_def py_strip_def

section \<open>Strip mode: columns, idempotence, the stand-alone script\<close>

lemma processed_pinyins_eq:
  "processed_pinyins segs = map (takeWhile (\<lambda>c. c \<noteq> SEMI)) segs"
  by (induction segs) (simp_all add: split_on_def hd_split_where)

lemma adhoc_processed_pinyins_eq: "adhoc_processed_pinyins segs = processed_pinyins segs"
  by (induction segs) simp_all

lemma set_py_join: "c \<in> set (py_join sep xs) \<Longrightarrow> c \<in> set sep \<or> (\<exists>x\<in>set xs. c \<in> set x)"
  by (induction sep xs rule: py_join.induct) auto

lemma roots_no_space:
  "r \<in> set (processed_pinyins (split_ws col)) \<Longrightarrow> c \<in> set r \<Longrightarrow> \<not> isspace c"
  unfolding processed_pinyins_eq using split_ws_tokens by (auto dest!: set_takeWhileD)

lemma roots_no_semi: "r \<in> set (processed_pinyins segs) \<Longrightarrow> SEMI \<notin> set r"
  unfolding processed_pinyins_eq by (auto dest: set_takeWhileD)

lemma new_column_no_tab: "TAB \<notin> set (py_join [SP] (processed_pinyins (split_ws col)))"
proof
  assume "TAB \<in> set (py_join [SP] (processed_pinyins (split_ws col)))"
  then have "TAB \<in> set [SP] \<or> (\<exists>r\<in>set (processed_pinyins (split_ws col)). TAB \<in> set r)"
    by (rule set_py_join)
  then obtain r where "r \<in> set (processed_pinyins (split_ws col))" and "TAB \<in> set r"
    by (auto simp: SP_def TAB_def)
  then have "\<not> isspace TAB" by (rule roots_no_space)
  then show False by simp
qed

lemma pinyin_index_less: "pinyin_index cols userdb = Some i \<Longrightarrow> i < length cols"
  by (auto simp: pinyin_index_def split: if_splits)

lemma pinyin_index_length:
  "length cols' = length cols \<Longrightarrow> pinyin_index cols' userdb = pinyin_index cols userdb"
  by (simp add: pinyin_index_def)

lemma split_stripped_line:
  assumes "pinyin_index (split_on TAB line) userdb = Some i"
  shows "split_on TAB (remove_auxiliary_code_from_line line userdb) =
         (split_on TAB line)[i := py_join [SP] (processed_pinyins (split_ws (split_on TAB line ! i)))]"
proof -
  let ?cols = "split_on TAB line"
  let ?new = "py_join [SP] (processed_pinyins (split_ws (?cols ! i)))"
  have "\<forall>col\<in>set (?cols[i := ?new]). TAB \<notin> set col"
  proof
    fix col assume "col \<in> set (?cols[i := ?new])"
    then have "col = ?new \<or> col \<in> set ?cols"
      using set_update_subset_insert [of ?cols i ?new] by auto
    then show "TAB \<notin> set col"
    proof
      assume "col = ?new"
      then show ?thesis by (simp only: new_column_no_tab not_False_eq_True)
    next
      assume "col \<in> set ?cols"
      then show ?thesis by (rule split_on_pieces)
    qed
  qed
  moreover have "?cols[i := ?new] \<noteq> []" by simp
  ultimately have "split_on TAB (py_join [TAB] (?cols[i := ?new])) = ?cols[i := ?new]"
    by (intro split_on_join) auto
  then show ?thesis using assms by (simp add: remove_auxiliary_code_from_line_def Let_def)
qed

lemma strip_line_Some:
  "pinyin_index (split_on TAB l) userdb = Some i \<Longrightarrow>
   remove_auxiliary_code_from_line l userdb =
   py_join [TAB] ((split_on TAB l)[i := py_join [SP] (processed_pinyins (split_ws (split_on TAB l ! i)))])"
  by (simp add: remove_auxiliary_code_from_line_def Let_def)

lemma processed_pinyins_roots:
  "processed_pinyins (processed_pinyins segs) = processed_pinyins segs"
proof -
  have "takeWhile (\<lambda>c. c \<noteq> SEMI) (takeWhile (\<lambda>c. c \<noteq> SEMI) seg) = takeWhile (\<lambda>c. c \<noteq> SEMI) seg"
    for seg :: ustr
    by (rule takeWhile_eq_all_conv [THEN iffD2]) (auto dest: set_takeWhileD)
  then show ?thesis by (simp add: processed_pinyins_eq)
qed

text \<open>
  Claim C10. For every data line and both modes, the strip operation keeps the number of
  tab-separated columns, and every column other than the transcription column (column 0 of
  a user dictionary, column 1 of a plain one) is the same character for character.
\<close>

theorem strip_keeps_other_columns:
  "length (split_on TAB (remove_auxiliary_code_from_line line userdb)) = length (split_on TAB line)
   \<and> (\<forall>i < length (split_on TAB line). i \<noteq> (if userdb then 0 else 1) \<longrightarrow>
        split_on TAB (remove_auxiliary_code_from_line line userdb) ! i = split_on TAB line ! i)"
proof (cases "pinyin_index (split_on TAB line) userdb")
  case None
  then show ?thesis by (simp add: remove_auxiliary_code_from_line_def)
next
  case (Some j)
  then have j: "j = (if userdb then 0 else 1)" by (auto simp: pinyin_index_def split: if_splits)
  show ?thesis unfolding split_stripped_line [OF Some] using j by simp
qed

text \<open>
  On the example line the stripped line still has three columns, and the word and the
  frequency are as they were.
\<close>

theorem strip_keeps_other_columns_witness:
  "length (split_on TAB (remove_auxiliary_code_from_line ni_hao_line False)) = 3
   \<and> split_on TAB (remove_auxiliary_code_from_line ni_hao_line False) ! 0 = [20320, 22909]
   \<and> split_on TAB (remove_auxiliary_code_from_line ni_hao_line False) ! 2 = ascii ''100''"
proof -
  have cols: "split_on TAB ni_hao_line = [[20320, 22909], [110, 464, 59, 120, 32, 104, 462, 111, 59, 121], ascii ''100'']"
    by (simp add: ni_hao_line_def str_eval)
  from strip_keeps_other_columns [of ni_hao_line False] have
    len: "length (split_on TAB (remove_auxiliary_code_from_line ni_hao_line False)) = length (split_on TAB ni_hao_line)"
    and rest: "\<And>i. i < length (split_on TAB ni_hao_line) \<Longrightarrow> i \<noteq> 1 \<Longrightarrow>
      split_on TAB (remove_auxiliary_code_from_line ni_hao_line False) ! i = split_on TAB ni_hao_line ! i"
    by simp_all
  from len rest [of 0] rest [of 2] show ?thesis by (simp add: cols)
qed

text \<open>
  Claim C4, as the specification states it, fails: a segment that begins with a semicolon
  has an empty root, the first pass joins the roots with single spaces, and the second pass
  drops the empty root and closes the gap. On \<open>empty_root_line\<close> the first pass gives
  the column \<open>a  c\<close> and the second \<open>a c\<close>.
\<close>

theorem strip_idempotent_counterexample:
  "remove_auxiliary_code_from_line (remove_auxiliary_code_from_line empty_root_line False) False
   \<noteq> remove_auxiliary_code_from_line empty_root_line False"
proof -
  have one: "remove_auxiliary_code_from_line empty_root_line False = py_join [TAB] [ascii ''x'', ascii ''a  c'']"
    by (simp add: empty_root_line_def remove_auxiliary_code_from_line_def pinyin_index_def str_eval)
  have two: "remove_auxiliary_code_from_line (py_join [TAB] [ascii ''x'', ascii ''a  c'']) False
      = py_join [TAB] [ascii ''x'', ascii ''a c'']"
    by (simp add: remove_auxiliary_code_from_line_def pinyin_index_def str_eval)
  show ?thesis unfolding one two by (simp add: str_eval)
qed

text \<open>
  Claim C4, amended. For every data line and both modes, stripping twice gives the same line
  as stripping once whenever no segment of the transcription column begins with a
  semicolon, that is, whenever every segment has a root.
\<close>

theorem strip_idempotent_nonempty_roots:
  assumes "\<forall>seg\<in>set (transcription_segments line userdb). \<not> startswith seg [SEMI]"
  shows "remove_auxiliary_code_from_line (remove_auxiliary_code_from_line line userdb) userdb
         = remove_auxiliary_code_from_line line userdb"
proof (cases "pinyin_index (split_on TAB line) userdb")
  case None
  then show ?thesis by (simp add: remove_auxiliary_code_from_line_def)
next
  case (Some i)
  define cols where "cols = split_on TAB line"
  define roots where "roots = processed_pinyins (split_ws (cols ! i))"
  define new where "new = py_join [SP] roots"
  define out where "out = remove_auxiliary_code_from_line line userdb"
  have i: "i < length cols" using Some unfolding cols_def by (rule pinyin_index_less)
  have segs: "transcription_segments line userdb = split_ws (cols ! i)"
    using Some by (simp add: transcription_segments_def cols_def)
  have cols': "split_on TAB out = cols[i := new]"
    unfolding out_def cols_def new_def roots_def using Some by (rule split_stripped_line)
  have idx': "pinyin_index (split_on TAB out) userdb = Some i"
    using Some pinyin_index_length [of "split_on TAB out" "split_on TAB line" userdb] cols'
    by (simp add: cols_def)
  have nonempty: "r \<noteq> []" if "r \<in> set roots" for r
  proof -
    from that obtain seg where seg: "seg \<in> set (split_ws (cols ! i))"
      and r: "r = takeWhile (\<lambda>c. c \<noteq> SEMI) seg"
      unfolding roots_def processed_pinyins_eq by auto
    from seg have "seg \<noteq> []" using split_ws_tokens by blast
    moreover from seg assms segs have "\<not> startswith seg [SEMI]" by simp
    ultimately show ?thesis using r by (cases seg) (auto simp: startswith_def)
  qed
  have nospace: "\<forall>c\<in>set r. \<not> isspace c" if "r \<in> set roots" for r
    using that roots_no_space unfolding roots_def by blast
  have "split_ws new = roots"
    unfolding new_def by (rule split_ws_join) (use nonempty nospace in blast)
  moreover have "processed_pinyins roots = roots"
    unfolding roots_def by (rule processed_pinyins_roots)
  moreover have "split_on TAB out ! i = new" using cols' i by simp
  ultimately have "py_join [SP] (processed_pinyins (split_ws (split_on TAB out ! i))) = new"
    by (simp only: new_def)
  with strip_line_Some [OF idx'] have
    "remove_auxiliary_code_from_line out userdb = py_join [TAB] ((split_on TAB out)[i := new])"
    by (simp only:)
  also have "(split_on TAB out)[i := new] = split_on TAB out" using cols' by simp
  also have "py_join [TAB] (split_on TAB out) = out" by (rule join_split_on)
  finally show ?thesis unfolding out_def .
qed

text \<open>
  The example line has no segment that begins with a semicolon, and stripping it twice is
  stripping it once.
\<close>

theorem strip_idempotent_nonempty_roots_witness:
  "list_all (\<lambda>seg. \<not> startswith seg [SEMI]) (transcription_segments ni_hao_line False)
   \<and> remove_auxiliary_code_from_line (remove_auxiliary_code_from_line ni_hao_line False) False
       = remove_auxiliary_code_from_line ni_hao_line False"
proof -
  have h: "\<forall>seg\<in>set (transcription_segments ni_hao_line False). \<not> startswith seg [SEMI]"
    by (simp add: transcription_segments_def ni_hao_line_def pinyin_index_def str_eval)
  from strip_idempotent_nonempty_roots [OF h] h show ?thesis by (simp add: list_all_iff)
qed

text \<open>
  Claim C8. On every line with at least two tab-separated columns, the per-line
  transformation of the stand-alone script returns the same string as
  \<open>remove_auxiliary_code_from_line\<close> in plain mode.
\<close>

theorem adhoc_strip_agrees:
  assumes "2 \<le> length (split_on TAB line)"
  shows "adhoc_process_line line = remove_auxiliary_code_from_line line False"
  using assms
  by (simp add: adhoc_process_line_def remove_auxiliary_code_from_line_def pinyin_index_def
      adhoc_processed_pinyins_eq Let_def)

text \<open>
  On the example line both give the word, the two roots and the frequency.
\<close>

theorem adhoc_strip_agrees_witness:
  "2 \<le> length (split_on TAB ni_hao_line)
   \<and> adhoc_process_line ni_hao_line = remove_auxiliary_code_from_line ni_hao_line False
   \<and> adhoc_process_line ni_hao_line = py_join [TAB] [[20320, 22909], [110, 464, SP, 104, 462, 111], ascii ''100'']"
proof -
  have h: "2 \<le> length (split_on TAB ni_hao_line)"
    by (simp add: ni_hao_line_def str_eval)
  have "remove_auxiliary_code_from_line ni_hao_line False
      = py_join [TAB] [[20320, 22909], [110, 464, SP, 104, 462, 111], ascii ''100'']"
    by (simp add: ni_hao_line_def remove_auxiliary_code_from_line_def pinyin_index_def str_eval)
  with adhoc_strip_agrees [OF h] h show ?thesis by simp
qed

section \<open>Refresh mode: the auxiliary codes\<close>

lemma py_strip_Nil [simp]: "py_strip [] = []"
  by (simp add: py_strip_def)

lemma merged_segs_eq:
  "merged_segs aux_segs i raw_segs =
   map (\<lambda>(j, py). seg_root py @ [SEMI] @ (if j < length aux_segs then aux_segs ! j else []))
     (enumerate i raw_segs)"
  by (induction raw_segs arbitrary: i) (simp_all add: Let_def)


lemma aux_seg_at:
  "(if j < length (build_seg_by_aux word aux_map) then build_seg_by_aux word aux_map ! j else [])
   = (if j < length word then aux_get aux_map (word ! j) else [])"
  by (simp add: build_seg_by_aux_def)


lemma merged_segs_Nil_iff: "merged_segs aux_segs i raw_segs = [] \<longleftrightarrow> raw_segs = []"
  by (cases raw_segs) (simp_all add: Let_def)

lemma refresh_aux_userdb:
  "refresh_aux word aux_map True cols =
   Aux_done ((if length cols < 2 then cols @ [[]] else cols)
     [0 := py_join [SP] (merged_segs (build_seg_by_aux word aux_map) 0
            (if 0 < length cols then split_ws (py_strip (cols ! 0)) else []))])"
  by (cases cols) (simp_all add: refresh_aux_def set_item_def Let_def)


lemmas demo_eval = demo_env_def off_env_def demo_pinyin_def demo_pinyin_ignore_def
lemmas refresh_eval = refresh_pinyin_def char_py_of_def tone_mark_def seg_root_def seg_suffix_def
  AUX_SEP_def isdigit_def transform_cols_def userdb_space_def get_item_def set_item_def
  refresh_aux_def build_seg_by_aux_def aux_get_def list_insert_def Let_def

lemma endswith_single: "endswith s [c] \<longleftrightarrow> s \<noteq> [] \<and> last s = c"
  by (cases s rule: rev_cases) (simp_all add: endswith_def startswith_def)

lemma refresh_pinyin_not_skip:
  "py_strip word \<noteq> [] \<Longrightarrow> refresh_pinyin e userdb word cols \<noteq> Skip_line"
  by (simp add: refresh_pinyin_def Let_def split: sum.splits)

lemma refresh_pinyin_userdb_nonempty:
  "refresh_pinyin e True word cols = Pinyin_done cs \<Longrightarrow> 2 \<le> length cols \<Longrightarrow> cs \<noteq> []"
  by (auto simp: refresh_pinyin_def Let_def split: sum.splits if_splits)

lemma userdb_space_first:
  "cs \<noteq> [] \<Longrightarrow>
   userdb_space True cs \<noteq> [] \<and>
   userdb_space True cs ! 0 = (if endswith (cs ! 0) [SP] then cs ! 0 else cs ! 0 @ [SP])"
  by (cases cs) (simp_all add: userdb_space_def)

lemma trailing_spaces_append_SP:
  "\<not> endswith s [SP] \<Longrightarrow> trailing_spaces (s @ [SP]) = 1"
  by (cases s rule: rev_cases) (simp_all add: trailing_spaces_def endswith_single)

lemma py_join_last:
  "xs \<noteq> [] \<Longrightarrow> \<forall>x\<in>set xs. x \<noteq> [] \<Longrightarrow>
   py_join sep xs \<noteq> [] \<and> last (py_join sep xs) = last (last xs)"
  by (induction sep xs rule: py_join.induct) auto

lemma aux_get_code:
  "list_all (\<lambda>(key, code). \<not> endswith code [SP]) aux_map \<Longrightarrow> \<not> endswith (aux_get aux_map ch) [SP]"
proof (cases "map_of aux_map [ch]")
  case None
  then show ?thesis by (simp add: aux_get_def endswith_single)
next
  case (Some code)
  assume all: "list_all (\<lambda>(key, code). \<not> endswith code [SP]) aux_map"
  from Some have "([ch], code) \<in> set aux_map" by (rule map_of_SomeD)
  with all have "\<not> endswith code [SP]" by (auto simp: list_all_iff)
  with Some show ?thesis by (simp add: aux_get_def)
qed

lemma merged_not_spaced:
  assumes "list_all (\<lambda>(key, code). \<not> endswith code [SP]) aux_map"
  shows "\<not> endswith (py_join [SP] (merged_segs (build_seg_by_aux word aux_map) i raw_segs)) [SP]"
proof (cases "raw_segs = []")
  case True
  then show ?thesis by (simp add: endswith_single)
next
  case False
  let ?m = "merged_segs (build_seg_by_aux word aux_map) i raw_segs"
  have each: "x \<noteq> [] \<and> last x \<noteq> SP" if "x \<in> set ?m" for x
  proof -
    from that obtain j py where
      x: "x = seg_root py @ [SEMI] @ (if j < length word then aux_get aux_map (word ! j) else [])"
      unfolding merged_segs_eq by (auto simp: aux_seg_at simp del: enumerate_simps)
    show ?thesis
    proof (cases "j < length word \<and> aux_get aux_map (word ! j) \<noteq> []")
      case True
      with aux_get_code [OF assms, of "word ! j"] x show ?thesis by (simp add: endswith_single)
    next
      case False
      with x show ?thesis by (auto simp: SEMI_def SP_def)
    qed
  qed
  have ne: "?m \<noteq> []" using False by (simp add: merged_segs_Nil_iff)
  from py_join_last [OF ne] each have
    "py_join [SP] ?m \<noteq> [] \<and> last (py_join [SP] ?m) = last (last ?m)" by blast
  moreover have "last (last ?m) \<noteq> SP" using each [of "last ?m"] ne by simp
  ultimately show ?thesis by (simp add: endswith_single)
qed







section \<open>Refresh mode: the user-dictionary convention\<close>

lemma transform_cols_userdb:
  assumes "2 \<le> length cols" and "py_strip word \<noteq> []"
  shows "\<exists>cs. cs \<noteq> [] \<and> transform_cols e aux_map True word cols = Some (userdb_space True cs)
     \<and> (REFRESH_AUX_CODE e \<and> aux_map \<noteq> [] \<longrightarrow>
          (\<exists>raw_segs. cs ! 0 = py_join [SP] (merged_segs (build_seg_by_aux word aux_map) 0 raw_segs)))"
proof -
  define step where
    "step = (if REFRESH_PINYIN e \<and> HAS_PYPINYIN e then refresh_pinyin e True word cols else Pinyin_done cols)"
  define cols1 where "cols1 = (case step of Pinyin_done cs \<Rightarrow> cs | _ \<Rightarrow> cols)"
  have not_skip: "step \<noteq> Skip_line"
    using assms(2) by (simp add: step_def refresh_pinyin_not_skip)
  have ne1: "cols1 \<noteq> []"
  proof (cases step)
    case (Pinyin_done cs)
    then have "cs \<noteq> []"
      using assms(1) refresh_pinyin_userdb_nonempty [of e word cols cs]
      by (auto simp: step_def split: if_splits)
    with Pinyin_done show ?thesis by (simp add: cols1_def)
  qed (use assms(1) in \<open>auto simp: cols1_def\<close>)
  define cols2 where
    "cols2 = (if REFRESH_AUX_CODE e \<and> aux_map \<noteq> []
              then (case refresh_aux word aux_map True cols1 of Aux_failed err cs \<Rightarrow> cs | Aux_done cs \<Rightarrow> cs)
              else cols1)"
  have t: "transform_cols e aux_map True word cols = Some (userdb_space True cols2)"
    using not_skip unfolding transform_cols_def step_def [symmetric] cols2_def cols1_def
    by (cases step) (simp_all add: Let_def)
  have ne2: "cols2 \<noteq> []"
    using ne1 by (simp add: cols2_def refresh_aux_userdb)
  have "\<exists>raw_segs. cols2 ! 0 = py_join [SP] (merged_segs (build_seg_by_aux word aux_map) 0 raw_segs)"
    if "REFRESH_AUX_CODE e \<and> aux_map \<noteq> []"
    using that ne1 by (cases cols1) (auto simp: cols2_def refresh_aux_userdb)
  with t ne2 show ?thesis by blast
qed

text \<open>
  Claim C3, as the specification states it, fails: the convention only appends a space to a
  first column that does not end in one. With both refresh switches off, a first column that
  ends in two spaces still ends in two spaces; so it does with both switches on, when the
  table of auxiliary codes is empty and the transcription service fails for the line.
\<close>

theorem userdb_two_spaces_counterexample:
  "transform_cols off_env [] True [20320] [[110, 464, SP, SP], [20320], ascii ''c=1'']
     = Some [[110, 464, SP, SP], [20320], ascii ''c=1'']
   \<and> transform_cols (demo_env\<lparr>pinyin := \<lambda>word. Inl ServiceError\<rparr>) [] True [20320]
       [[110, 464, SP, SP], [20320], ascii ''c=1'']
     = Some [[110, 464, SP, SP], [20320], ascii ''c=1'']
   \<and> trailing_spaces [110, 464, SP, SP] = 2"
  by (simp add: refresh_eval demo_eval str_eval trailing_spaces_def)

text \<open>
  Claim C3, amended. For every user-dictionary data line with a non-blank word, the first
  column of the processed line ends in a space. It ends in exactly one space, however many
  it had before, when the auxiliary-code block runs (the switch is on and the table is not
  empty) and no code of the table ends in a space. The convention itself appends one space
  to a first column that does not end in one and leaves any other first column as it is.
\<close>

theorem userdb_column_ends_in_space:
  assumes "get_item cols 1 = Inr word" and "py_strip word \<noteq> []"
  shows "(\<exists>cols'. transform_cols e aux_map True word cols = Some cols' \<and> cols' \<noteq> []
           \<and> endswith (cols' ! 0) [SP]
           \<and> (REFRESH_AUX_CODE e \<and> aux_map \<noteq> []
                \<and> list_all (\<lambda>(key, code). \<not> endswith code [SP]) aux_map
              \<longrightarrow> trailing_spaces (cols' ! 0) = 1))
         \<and> (\<forall>cs. cs \<noteq> [] \<longrightarrow>
               userdb_space True cs ! 0 = (if endswith (cs ! 0) [SP] then cs ! 0 else cs ! 0 @ [SP]))"
proof -
  from assms(1) have len: "2 \<le> length cols" by (auto simp: get_item_def split: if_splits)
  from transform_cols_userdb [OF len assms(2), of e aux_map] obtain cs where
    cs: "cs \<noteq> []" and t: "transform_cols e aux_map True word cols = Some (userdb_space True cs)"
    and aux: "REFRESH_AUX_CODE e \<and> aux_map \<noteq> [] \<longrightarrow>
      (\<exists>raw_segs. cs ! 0 = py_join [SP] (merged_segs (build_seg_by_aux word aux_map) 0 raw_segs))"
    by blast
  from userdb_space_first [OF cs] have ne: "userdb_space True cs \<noteq> []"
    and first: "userdb_space True cs ! 0 = (if endswith (cs ! 0) [SP] then cs ! 0 else cs ! 0 @ [SP])"
    by simp_all
  have ends: "endswith (userdb_space True cs ! 0) [SP]"
    unfolding first by (simp add: endswith_single)
  have one: "trailing_spaces (userdb_space True cs ! 0) = 1"
    if "REFRESH_AUX_CODE e \<and> aux_map \<noteq> [] \<and> list_all (\<lambda>(key, code). \<not> endswith code [SP]) aux_map"
  proof -
    from that aux obtain raw_segs where
      "cs ! 0 = py_join [SP] (merged_segs (build_seg_by_aux word aux_map) 0 raw_segs)" by blast
    with that merged_not_spaced [of aux_map word 0 raw_segs] have "\<not> endswith (cs ! 0) [SP]" by simp
    then show ?thesis unfolding first by (simp add: trailing_spaces_append_SP)
  qed
  from t ne ends one have
    "\<exists>cols'. transform_cols e aux_map True word cols = Some cols' \<and> cols' \<noteq> []
       \<and> endswith (cols' ! 0) [SP]
       \<and> (REFRESH_AUX_CODE e \<and> aux_map \<noteq> []
            \<and> list_all (\<lambda>(key, code). \<not> endswith code [SP]) aux_map
          \<longrightarrow> trailing_spaces (cols' ! 0) = 1)" by blast
  moreover have "\<forall>cs. cs \<noteq> [] \<longrightarrow>
      userdb_space True cs ! 0 = (if endswith (cs ! 0) [SP] then cs ! 0 else cs ! 0 @ [SP])"
    using userdb_space_first by blast
  ultimately show ?thesis by (rule conjI)
qed

text \<open>
  The third scenario of the specification with two spaces after the first column: the
  auxiliary code is replaced and the column ends in one space.
\<close>

theorem userdb_column_ends_in_space_witness:
  "\<exists>cols'. transform_cols demo_env [([20320], ascii ''z'')] True [20320]
              [[110, 464, SEMI, 120, SP, SP], [20320], ascii ''c=1''] = Some cols'
     \<and> cols' ! 0 = [110, 464, SEMI, 122, SP] \<and> trailing_spaces (cols' ! 0) = 1"
proof -
  have g: "get_item [[110, 464, SEMI, 120, SP, SP], [20320], ascii ''c=1''] 1 = Inr [20320]"
    by (simp add: get_item_def)
  have w: "py_strip [20320] \<noteq> []" by (simp add: str_eval)
  have t: "transform_cols demo_env [([20320], ascii ''z'')] True [20320]
       [[110, 464, SEMI, 120, SP, SP], [20320], ascii ''c=1'']
     = Some [[110, 464, SEMI, 122, SP], [20320], ascii ''c=1'']"
    by (simp add: refresh_eval demo_eval str_eval)
  from userdb_column_ends_in_space [OF g w, of demo_env "[([20320], ascii ''z'')]"] t
  show ?thesis by (auto simp: demo_eval str_eval)
qed

section \<open>Refresh mode: the transcription\<close>

lemma userdb_new_segs_paired:
  "userdb_new_segs e char_py i segs = Inr new_segs \<Longrightarrow> k < length segs \<Longrightarrow> i + k < length char_py \<Longrightarrow>
   new_segs ! k = char_py ! (i + k) @ seg_suffix (segs ! k)"
proof (induction segs arbitrary: i k new_segs)
  case Nil
  then show ?case by simp
next
  case (Cons seg segs)
  from Cons.prems(1) obtain base rest where
    base: "(if i < length char_py then Inr (char_py ! i) else tone_mark e seg) = Inr base"
    and rest: "userdb_new_segs e char_py (Suc i) segs = Inr rest"
    and new: "new_segs = (base @ seg_suffix seg) # rest"
    by (auto split: sum.splits)
  show ?case
  proof (cases k)
    case 0
    with Cons.prems base new show ?thesis by simp
  next
    case (Suc k')
    with Cons.prems Cons.IH [OF rest, of k'] new show ?thesis by simp
  qed
qed

lemma userdb_new_segs_fallback:
  "userdb_new_segs e char_py i segs = Inr new_segs \<Longrightarrow> k < length segs \<Longrightarrow> length char_py \<le> i + k \<Longrightarrow>
   HAS_PYPINYIN e \<Longrightarrow>
   \<exists>new_root. new_segs ! k = new_root @ seg_suffix (segs ! k) @ seg_suffix (segs ! k)"
proof (induction segs arbitrary: i k new_segs)
  case Nil
  then show ?case by simp
next
  case (Cons seg segs)
  from Cons.prems(1) obtain base rest where
    base: "(if i < length char_py then Inr (char_py ! i) else tone_mark e seg) = Inr base"
    and rest: "userdb_new_segs e char_py (Suc i) segs = Inr rest"
    and new: "new_segs = (base @ seg_suffix seg) # rest"
    by (auto split: sum.splits)
  show ?case
  proof (cases k)
    case 0
    with Cons.prems base have "tone_mark e seg = Inr base" by simp
    with Cons.prems(4) obtain r where "base = r @ seg_suffix seg"
      by (auto simp: tone_mark_def Let_def split: sum.splits list.splits)
    with 0 new show ?thesis by simp
  next
    case (Suc k')
    with Cons.prems Cons.IH [OF rest, of k'] new show ?thesis by simp
  qed
qed

lemma plain_new_segs_paired:
  "k < length char_py \<Longrightarrow> i + k < length segs \<Longrightarrow>
   plain_new_segs segs i char_py ! k = char_py ! k @ seg_suffix (segs ! (i + k))"
proof (induction char_py arbitrary: i k)
  case Nil
  then show ?case by simp
next
  case (Cons py pys)
  show ?case
  proof (cases k)
    case 0
    with Cons.prems show ?thesis by simp
  next
    case (Suc k')
    with Cons.prems Cons.IH [of k' "Suc i"] show ?thesis by simp
  qed
qed

lemma suffix_kept_example:
  "seg_suffix (ascii ''ni;abc'') = ascii '';abc''
   \<and> plain_new_segs [ascii ''ni;abc''] 0 [[110, 464]] = [[110, 464] @ ascii '';abc'']
   \<and> userdb_new_segs demo_env [[110, 464]] 0 [ascii ''ni;abc''] = Inr [[110, 464] @ ascii '';abc'']"
  by (simp add: seg_suffix_def seg_root_def AUX_SEP_def str_eval)

text \<open>
  Claim C6 at a segment past the end of \<open>char_py\<close>. The user-dictionary line has the
  segments \<open>ni;a\<close> and \<open>hao;b\<close> and a word of one character. The second segment falls
  back to \<open>tone_mark\<close>, whose result already carries the suffix, and the loop appends the
  suffix once more: the segment becomes \<open>hao;b;b\<close>. With an empty table of auxiliary
  codes this is the line written back. The same happens when the service does return a
  transcription for the root: the segment U+597D \<open>;b\<close> becomes \<open>h\<close> U+01CE \<open>o;b;b\<close>.
\<close>

theorem fallback_segment_suffix_twice:
  "refresh_pinyin demo_env True [20320]
     [ascii ''ni;a hao;b'', [20320], ascii ''c=1'']
   = Pinyin_done [[110, 464] @ ascii '';a hao;b;b'', [20320], ascii ''c=1'']
   \<and> transform_cols demo_env [] True [20320] [ascii ''ni;a hao;b'', [20320], ascii ''c=1'']
   = Some [[110, 464] @ ascii '';a hao;b;b '', [20320], ascii ''c=1'']
   \<and> refresh_pinyin demo_env True [20320]
     [ascii ''ni;a '' @ [22909] @ ascii '';b'', [20320], ascii ''c=1'']
   = Pinyin_done [[110, 464] @ ascii '';a '' @ [104, 462, 111] @ ascii '';b;b'', [20320], ascii ''c=1'']"
  by (simp add: refresh_eval demo_eval str_eval)

text \<open>
  Claim C1 at a user-dictionary line of two columns, \<open>ni\<close> followed by a space and the
  word U+4F60. The line fails the test for three columns and is handled by the branch for
  plain dictionaries, which takes column 1 for the transcription: the word is replaced by
  its transcription, and the line written back no longer holds the word.
\<close>

theorem userdb_two_columns_word_overwritten:
  "refresh_pinyin demo_env True [20320] [ascii ''ni '', [20320]]
   = Pinyin_done [ascii ''ni '', [110, 464]]
   \<and> process_line demo_env [([20320], ascii ''q'')] True (py_join [TAB] [ascii ''ni '', [20320]])
   = (py_join [TAB] [ascii ''ni;q '', [110, 464]], True, True)"
  by (simp add: refresh_eval demo_eval str_eval process_line_def is_head_or_comment_def yaml_heads_def)

section \<open>Reading a file\<close>

lemma rstrip_nl_line: "NL \<notin> set body \<Longrightarrow> rstrip_nl (body @ [NL]) = body"
proof -
  assume a: "NL \<notin> set body"
  have "dropWhile (\<lambda>c. c = NL) (rev body) = rev body"
    using a by (cases "rev body") (auto simp: rev_swap)
  then show ?thesis by (simp add: rstrip_nl_def)
qed

lemma rstrip_nl_clean: "NL \<notin> set body \<Longrightarrow> rstrip_nl body = body"
proof -
  assume a: "NL \<notin> set body"
  have "dropWhile (\<lambda>c. c = NL) (rev body) = rev body"
    using a by (cases "rev body") (auto simp: rev_swap)
  then show ?thesis by (simp add: rstrip_nl_def)
qed

lemma lines_from_shape:
  "l \<in> set (lines_from cur s) \<Longrightarrow> NL \<notin> set cur \<Longrightarrow>
   \<exists>body. NL \<notin> set body \<and> (l = body @ [NL] \<or> l = body)"
proof (induction s arbitrary: cur)
  case Nil
  then show ?case by (auto split: if_splits)
next
  case (Cons c cs)
  show ?case
  proof (cases "c = NL")
    case True
    with Cons.prems have "l = cur @ [NL] \<or> l \<in> set (lines_from [] cs)" by simp
    then show ?thesis
    proof
      assume "l = cur @ [NL]"
      with Cons.prems(2) show ?thesis by blast
    next
      assume "l \<in> set (lines_from [] cs)"
      then show ?thesis by (rule Cons.IH) simp
    qed
  next
    case False
    with Cons.prems have "l \<in> set (lines_from (cur @ [c]) cs)" by simp
    then show ?thesis by (rule Cons.IH) (use False Cons.prems(2) in auto)
  qed
qed

lemma read_lines_no_newline:
  "l \<in> set (map rstrip_nl (file_lines text)) \<Longrightarrow> NL \<notin> set l"
proof -
  assume "l \<in> set (map rstrip_nl (file_lines text))"
  then obtain raw where raw: "raw \<in> set (lines_from [] (universal_newlines text))"
    and l: "l = rstrip_nl raw" by (auto simp: file_lines_def)
  from lines_from_shape [OF raw] obtain body where
    "NL \<notin> set body" and "raw = body @ [NL] \<or> raw = body" by auto
  then show ?thesis using l by (auto simp: rstrip_nl_line rstrip_nl_clean)
qed

lemma read_file_safely_cases:
  "read_file_safely io bs =
     Some (map rstrip_nl (file_lines (case decode_utf8 io bs of
        Some text \<Rightarrow> text
      | None \<Rightarrow> (case decode_gbk io bs of Some text \<Rightarrow> text | None \<Rightarrow> map unat bs))))"
  by (simp add: read_file_safely_def decode_latin1_def split: option.splits)

lemmas file_eval = read_file_safely_def decode_latin1_def file_lines_def rstrip_nl_def strict_io_def

text \<open>
  Claim C9. Whatever the bytes of the file and whatever the two strict decoders do,
  \<open>read_file_safely\<close> returns a list of lines, and no line holds a line terminator: the
  last encoding tried decodes every byte sequence, so \<open>None\<close> is never returned.
\<close>

theorem read_file_safely_total:
  "\<exists>lines. read_file_safely io bs = Some lines \<and> (\<forall>l\<in>set lines. NL \<notin> set l)"
  unfolding read_file_safely_cases using read_lines_no_newline by blast

text \<open>
  Bytes that neither strict decoder accepts, with both kinds of line terminator.
\<close>

theorem read_file_safely_total_witness:
  "\<exists>lines. read_file_safely strict_io [255, 13, 10, 65, 10] = Some lines \<and> lines = [[255], [65]]"
  using read_file_safely_total [of strict_io "[255, 13, 10, 65, 10]"]
  by (simp add: file_eval chars)

section \<open>Processing a file\<close>

lemma py_join_space_differs:
  "py_join sep ((c @ [x]) # rest) \<noteq> py_join sep (c # rest)"
proof
  assume "py_join sep ((c @ [x]) # rest) = py_join sep (c # rest)"
  then have "length (py_join sep ((c @ [x]) # rest)) = length (py_join sep (c # rest))" by simp
  then show False by (cases rest) simp_all
qed

lemma userdb_space_changed:
  "cols \<noteq> [] \<Longrightarrow>
   (py_join [TAB] (userdb_space userdb cols) \<noteq> py_join [TAB] cols)
   = (userdb \<and> \<not> endswith (cols ! 0) [SP])"
  by (cases cols) (simp_all add: userdb_space_def py_join_space_differs)

lemma transform_cols_off:
  "\<not> REFRESH_PINYIN e \<Longrightarrow> \<not> REFRESH_AUX_CODE e \<Longrightarrow>
   transform_cols e aux_map userdb word cols = Some (userdb_space userdb cols)"
  by (simp add: transform_cols_def)

lemma process_line_off:
  assumes "\<not> REFRESH_PINYIN e" and "\<not> REFRESH_AUX_CODE e"
  shows "snd (process_line e aux_map userdb line) =
         (needs_space userdb line, userdb \<or> (is_head_or_comment line \<and> is_userdb_head line))"
proof -
  have cols: "split_on TAB line \<noteq> []" by simp
  show ?thesis
    using userdb_space_changed [OF cols, of userdb]
    by (auto simp: process_line_def needs_space_def transform_cols_off [OF assms] Let_def get_item_def
        split: sum.splits if_splits)
qed

lemma process_lines_off:
  assumes "\<not> REFRESH_PINYIN e" and "\<not> REFRESH_AUX_CODE e"
  shows "snd (process_lines e aux_map userdb lines) = any_needs_space userdb lines"
proof (induction lines arbitrary: userdb)
  case Nil
  then show ?case by simp
next
  case (Cons line lines)
  obtain out changed u' where pl: "process_line e aux_map userdb line = (out, changed, u')"
    by (cases "process_line e aux_map userdb line") auto
  with process_line_off [OF assms, of aux_map userdb line] have
    c: "changed = needs_space userdb line"
    and u: "u' = (userdb \<or> (is_head_or_comment line \<and> is_userdb_head line))" by simp_all
  obtain outs m where pls: "process_lines e aux_map u' lines = (outs, m)"
    by (cases "process_lines e aux_map u' lines") auto
  with Cons.IH [of u'] have "m = any_needs_space u' lines" by simp
  with pl pls c u show ?case by simp
qed

lemma process_line_changed:
  assumes "py_strip line \<noteq> []"
  shows "fst (snd (process_line e aux_map userdb line)) = (fst (process_line e aux_map userdb line) \<noteq> line)"
  using assms
  by (auto simp: process_line_def Let_def join_split_on split: sum.splits option.splits)

lemma write_back_outcome: "snd (write_back io file_path processed_lines fs) \<noteq> Unmodified"
  by (simp add: write_back_def Let_def split: option.splits)

lemma process_file_unmodified:
  assumes "\<not> basename io file_path \<in> set skip_set" and "fs file_path = Some bytes"
    and "\<not> read_only io file_path" and "read_file_safely io bytes = Some lines"
  shows "(process_file_in_place e io aux_map file_path fs = (fs, Unmodified))
         = (\<not> snd (process_lines e aux_map False lines))"
proof -
  obtain outs m where pls: "process_lines e aux_map False lines = (outs, m)"
    by (cases "process_lines e aux_map False lines") auto
  show ?thesis
  proof (cases m)
    case True
    with assms pls have "process_file_in_place e io aux_map file_path fs = write_back io file_path outs fs"
      by (simp add: process_file_in_place_def)
    with write_back_outcome [of io file_path outs fs] True pls show ?thesis
      by (cases "write_back io file_path outs fs") auto
  next
    case False
    with assms pls show ?thesis by (simp add: process_file_in_place_def)
  qed
qed

lemma user_dict_lines:
  "read_file_safely strict_io (map of_nat user_dict_text)
   = Some [ascii ''# Rime user dictionary'', py_join [TAB] [ascii ''ni'', ascii ''x'', ascii ''c=1'']]"
  by (simp add: user_dict_text_def file_eval chars ascii_def)

lemma plain_dict_lines:
  "read_file_safely strict_io (map of_nat plain_dict_text)
   = Some [ascii ''# plain'', py_join [TAB] [ascii ''x'', ascii ''ni'']]"
  by (simp add: plain_dict_text_def file_eval chars ascii_def)

lemma user_dict_processed:
  "process_lines off_env [] False
     [ascii ''# Rime user dictionary'', py_join [TAB] [ascii ''ni'', ascii ''x'', ascii ''c=1'']]
   = ([ascii ''# Rime user dictionary'', py_join [TAB] [ascii ''ni '', ascii ''x'', ascii ''c=1'']], True)"
  by (simp add: process_line_def is_head_or_comment_def yaml_heads_def is_userdb_head_def
      refresh_eval demo_eval str_eval)


lemma process_file_modified:
  assumes "basename io file_path \<notin> set skip_set" and "fs file_path = Some bytes"
    and "\<not> read_only io file_path" and "read_file_safely io bytes = Some lines"
    and "process_lines e aux_map False lines = (outs, True)"
  shows "process_file_in_place e io aux_map file_path fs = write_back io file_path outs fs"
  using assms by (simp add: process_file_in_place_def)

lemma user_dict_rewrite:
  "process_file_in_place off_env (strict_io\<lparr>fault := f\<rparr>) [] ''user.dict.yaml'' user_dict_fs
   = write_back (strict_io\<lparr>fault := f\<rparr>) ''user.dict.yaml''
       [ascii ''# Rime user dictionary'', py_join [TAB] [ascii ''ni '', ascii ''x'', ascii ''c=1'']]
       user_dict_fs"
proof (rule process_file_modified)
  show "basename (strict_io\<lparr>fault := f\<rparr>) ''user.dict.yaml'' \<notin> set skip_set"
    by (simp add: strict_io_def skip_set_def)
  show "user_dict_fs ''user.dict.yaml'' = Some (map of_nat user_dict_text)"
    by (simp add: user_dict_fs_def)
  show "\<not> read_only (strict_io\<lparr>fault := f\<rparr>) ''user.dict.yaml''"
    by (simp add: strict_io_def)
  have "read_file_safely (strict_io\<lparr>fault := f\<rparr>) (map of_nat user_dict_text)
      = read_file_safely strict_io (map of_nat user_dict_text)"
    by (simp add: read_file_safely_def strict_io_def)
  then show "read_file_safely (strict_io\<lparr>fault := f\<rparr>) (map of_nat user_dict_text)
      = Some [ascii ''# Rime user dictionary'', py_join [TAB] [ascii ''ni'', ascii ''x'', ascii ''c=1'']]"
    by (simp only: user_dict_lines)
  show "process_lines off_env [] False
     [ascii ''# Rime user dictionary'', py_join [TAB] [ascii ''ni'', ascii ''x'', ascii ''c=1'']]
   = ([ascii ''# Rime user dictionary'', py_join [TAB] [ascii ''ni '', ascii ''x'', ascii ''c=1'']], True)"
    by (rule user_dict_processed)
qed

text \<open>
  Claim C7, as the specification states it, fails: with both refresh switches off the
  user-dictionary convention still applies. The user dictionary above has no auxiliary
  suffix anywhere, yet its data line gets a space after the first column and the file is
  rewritten.
\<close>

theorem noop_refresh_rewrites_counterexample:
  "snd (process_file_in_place off_env strict_io [] ''user.dict.yaml'' user_dict_fs) = Rewritten
   \<and> fst (process_file_in_place off_env strict_io [] ''user.dict.yaml'' user_dict_fs) ''user.dict.yaml''
       \<noteq> user_dict_fs ''user.dict.yaml''"
proof -
  have "strict_io = strict_io\<lparr>fault := No_fault\<rparr>" by (simp add: strict_io_def)
  then have "process_file_in_place off_env strict_io [] ''user.dict.yaml'' user_dict_fs
    = write_back (strict_io\<lparr>fault := No_fault\<rparr>) ''user.dict.yaml''
       [ascii ''# Rime user dictionary'', py_join [TAB] [ascii ''ni '', ascii ''x'', ascii ''c=1'']]
       user_dict_fs"
    using user_dict_rewrite [of No_fault] by simp
  then show ?thesis
    by (simp add: write_back_def strict_io_def user_dict_fs_def user_dict_text_def Let_def str_eval)
qed

text \<open>
  Claim C7, amended. For a file that is processed (not in the skip set, present, writable),
  with both refresh switches off the file is reported unmodified and left as it is exactly
  when no data line of a user dictionary with a non-blank word has a first column that does
  not end in a space; so always for a plain dictionary. With any switches, a file none of
  whose lines is counted as modified is reported unmodified and not written, and a line that
  is not blank is counted as modified exactly when the line appended for it differs from
  the original line.
\<close>

theorem noop_refresh_leaves_file:
  assumes "\<not> basename io file_path \<in> set skip_set" and "fs file_path = Some bytes"
    and "\<not> read_only io file_path" and "read_file_safely io bytes = Some lines"
  shows "(\<not> REFRESH_PINYIN e \<and> \<not> REFRESH_AUX_CODE e \<longrightarrow>
            (process_file_in_place e io aux_map file_path fs = (fs, Unmodified))
            = (\<not> any_needs_space False lines))
         \<and> (\<not> snd (process_lines e aux_map False lines) \<longrightarrow>
              process_file_in_place e io aux_map file_path fs = (fs, Unmodified))
         \<and> (\<forall>userdb line. py_strip line \<noteq> [] \<longrightarrow>
              fst (snd (process_line e aux_map userdb line))
              = (fst (process_line e aux_map userdb line) \<noteq> line))"
  using process_file_unmodified [of io file_path fs bytes lines e aux_map, OF assms]
    process_lines_off [of e aux_map False lines]
    process_line_changed [of _ e aux_map]
  by auto

text \<open>
  The plain dictionary above is reported unmodified and the file system is the same.
\<close>

theorem noop_refresh_leaves_file_witness:
  "process_file_in_place off_env strict_io [] ''plain.dict.yaml'' plain_dict_fs
   = (plain_dict_fs, Unmodified)"
proof -
  have a: "basename strict_io ''plain.dict.yaml'' \<notin> set skip_set"
    by (simp add: strict_io_def skip_set_def)
  have b: "plain_dict_fs ''plain.dict.yaml'' = Some (map of_nat plain_dict_text)"
    by (simp add: plain_dict_fs_def)
  have c: "\<not> read_only strict_io ''plain.dict.yaml''" by (simp add: strict_io_def)
  have d: "\<not> any_needs_space False [ascii ''# plain'', py_join [TAB] [ascii ''x'', ascii ''ni'']]"
    by (simp add: needs_space_def is_userdb_head_def is_head_or_comment_def yaml_heads_def str_eval)
  have e: "\<not> REFRESH_PINYIN off_env \<and> \<not> REFRESH_AUX_CODE off_env" by (simp add: demo_eval)
  from noop_refresh_leaves_file [where io = strict_io and file_path = "''plain.dict.yaml''"
      and fs = plain_dict_fs and e = off_env and aux_map = "[]", OF a b c plain_dict_lines] d e
  show ?thesis by simp
qed

lemma suffixed_dict_lines:
  "read_file_safely (strict_io\<lparr>fault := f\<rparr>) (map of_nat suffixed_dict_text)
   = Some [py_join [TAB] [ascii ''x'', ascii ''ni;a'']]"
  by (simp add: suffixed_dict_text_def file_eval chars ascii_def)

lemma suffixed_dict_stripped:
  "strip_lines False [py_join [TAB] [ascii ''x'', ascii ''ni;a'']]
   = ([py_join [TAB] [ascii ''x'', ascii ''ni'']], True)"
  by (simp add: is_head_or_comment_def yaml_heads_def remove_auxiliary_code_from_line_def
      pinyin_index_def str_eval)

lemma strip_file_modified:
  assumes "basename io file_path \<notin> set skip_set" and "fs file_path = Some bytes"
    and "\<not> read_only io file_path" and "read_file_safely io bytes = Some lines"
    and "strip_lines False lines = (outs, True)"
  shows "remove_auxiliary_code_in_file io file_path fs = write_back io file_path outs fs"
  using assms by (simp add: remove_auxiliary_code_in_file_def)

lemma suffixed_dict_rewrite:
  "remove_auxiliary_code_in_file (strict_io\<lparr>fault := f\<rparr>) ''plain.dict.yaml'' suffixed_dict_fs
   = write_back (strict_io\<lparr>fault := f\<rparr>) ''plain.dict.yaml''
       [py_join [TAB] [ascii ''x'', ascii ''ni'']] suffixed_dict_fs"
proof (rule strip_file_modified)
  show "basename (strict_io\<lparr>fault := f\<rparr>) ''plain.dict.yaml'' \<notin> set skip_set"
    by (simp add: strict_io_def skip_set_def)
  show "suffixed_dict_fs ''plain.dict.yaml'' = Some (map of_nat suffixed_dict_text)"
    by (simp add: suffixed_dict_fs_def)
  show "\<not> read_only (strict_io\<lparr>fault := f\<rparr>) ''plain.dict.yaml''"
    by (simp add: strict_io_def)
  show "read_file_safely (strict_io\<lparr>fault := f\<rparr>) (map of_nat suffixed_dict_text)
      = Some [py_join [TAB] [ascii ''x'', ascii ''ni;a'']]"
    by (rule suffixed_dict_lines)
  show "strip_lines False [py_join [TAB] [ascii ''x'', ascii ''ni;a'']]
      = ([py_join [TAB] [ascii ''x'', ascii ''ni'']], True)"
    by (rule suffixed_dict_stripped)
qed

text \<open>
  Claim C2 at two failures of the write. When the move fails, the target has already been
  removed and the handler removes the temporary file: the call reports failure and the file
  is gone. When the write to the temporary file fails, the name of the temporary file has
  not been stored yet, so the handler removes nothing and the temporary file stays.
  \<open>remove_auxiliary_code_in_file\<close> writes back in the same way and loses the file in the
  same way.
\<close>

theorem rewrite_failure_loses_file:
  "snd (process_file_in_place off_env (strict_io\<lparr>fault := Move_fails\<rparr>) [] ''user.dict.yaml'' user_dict_fs)
     = Replace_failed
   \<and> returns Replace_failed = False \<and> returns Write_failed = False
   \<and> fst (process_file_in_place off_env (strict_io\<lparr>fault := Move_fails\<rparr>) [] ''user.dict.yaml'' user_dict_fs)
       ''user.dict.yaml'' = None
   \<and> snd (process_file_in_place off_env (strict_io\<lparr>fault := Write_fails\<rparr>) [] ''user.dict.yaml'' user_dict_fs)
     = Write_failed
   \<and> fst (process_file_in_place off_env (strict_io\<lparr>fault := Write_fails\<rparr>) [] ''user.dict.yaml'' user_dict_fs)
       ''tmp0001.tmp'' = Some []
   \<and> snd (remove_auxiliary_code_in_file (strict_io\<lparr>fault := Move_fails\<rparr>) ''plain.dict.yaml'' suffixed_dict_fs)
     = Replace_failed
   \<and> fst (remove_auxiliary_code_in_file (strict_io\<lparr>fault := Move_fails\<rparr>) ''plain.dict.yaml'' suffixed_dict_fs)
       ''plain.dict.yaml'' = None"
  unfolding user_dict_rewrite suffixed_dict_rewrite
  by (simp add: write_back_def strict_io_def user_dict_fs_def suffixed_dict_fs_def returns_def
      Let_def str_eval)

end
